theory Spec2Isabelle
  imports Main "HOL-Library.Word" "HOL-Library.Sublist"
begin

section \<open>JavaScript values and strings\<close>

text \<open>
  A JavaScript string is a sequence of UTF-16 code units. String literals of the source
  are written with \<open>lit\<close>, which maps each ASCII character to its code unit.
\<close>

type_synonym jschar = "16 word"
type_synonym jsstring = "jschar list"

definition lit :: "string \<Rightarrow> jsstring" where
  "lit s = map of_char s"

text \<open>
  The values the widget can hold in \<open>this.value\<close> or receive as \<open>text\<close>. Of a number only
  its truthiness is observed by the code, so numbers are restricted to integers and NaN.
  \<open>JArr\<close> is the array that \<open>String.prototype.match\<close> returns.
\<close>

datatype jsval =
    JUndefined
  | JNull
  | JBool bool
  | JNum int
  | JNaN
  | JStr jsstring
  | JArr "jsstring list"

datatype error = TypeError | SyntaxError | RpcError

fun truthy :: "jsval \<Rightarrow> bool" where
  "truthy JUndefined = False"
| "truthy JNull = False"
| "truthy (JBool b) = b"
| "truthy (JNum n) = (n \<noteq> 0)"
| "truthy JNaN = False"
| "truthy (JStr s) = (s \<noteq> [])"
| "truthy (JArr xs) = True"

text \<open>
  The class \<open>\s\<close> of an ECMAScript regular expression: the WhiteSpace and LineTerminator
  code points (TAB, LF, VT, FF, CR, SP, NBSP, U+1680, U+2000 to U+200A, U+2028, U+2029,
  U+202F, U+205F, U+3000, U+FEFF).
\<close>

definition is_space :: "jschar \<Rightarrow> bool" where
  "is_space c = (c = 9 \<or> c = 10 \<or> c = 11 \<or> c = 12 \<or> c = 13 \<or> c = 32 \<or> c = 160
     \<or> c = 5760 \<or> (8192 \<le> c \<and> c \<le> 8202) \<or> c = 8232 \<or> c = 8233 \<or> c = 8239
     \<or> c = 8287 \<or> c = 12288 \<or> c = 65279)"

subsection \<open>String.prototype.indexOf, replace, split and Array.prototype.join\<close>

text \<open>\<open>s.indexOf(pat)\<close>: the least index at which \<open>pat\<close> occurs in \<open>s\<close>, \<open>None\<close> for -1.\<close>

fun str_index :: "'a list \<Rightarrow> 'a list \<Rightarrow> nat option" where
  "str_index pat [] = (if pat = [] then Some 0 else None)"
| "str_index pat (c # cs) =
     (if prefix pat (c # cs) then Some 0 else map_option Suc (str_index pat cs))"

text \<open>
  \<open>s.replace(pat, rep)\<close> with a string pattern and a replacement free of \<open>$\<close>: only the
  first occurrence is replaced.
\<close>

definition replace_first :: "'a list \<Rightarrow> 'a list \<Rightarrow> 'a list \<Rightarrow> 'a list" where
  "replace_first pat rep s =
     (case str_index pat s of
        None \<Rightarrow> s
      | Some i \<Rightarrow> take i s @ rep @ drop (i + length pat) s)"

lemma str_index_bound:
  "str_index pat s = Some i \<Longrightarrow> i + length pat \<le> length s"
proof (induction s arbitrary: i)
  case Nil
  then show ?case by (simp split: if_splits)
next
  case (Cons c cs)
  show ?case
  proof (cases "prefix pat (c # cs)")
    case True
    with Cons.prems have "i = 0" by simp
    moreover from True have "length pat \<le> length (c # cs)" by (rule prefix_length_le)
    ultimately show ?thesis by simp
  next
    case False
    with Cons.prems obtain j where "str_index pat cs = Some j" and "i = Suc j"
      by auto
    with Cons.IH show ?thesis by fastforce
  qed
qed

text \<open>
  \<open>s.replace(/pat/g, rep)\<close> for a regular expression that is a literal string: the
  occurrences are found left to right, each search starting behind the previous match.
  (An empty pattern matches before every code unit and at the end.)
\<close>

function replace_all :: "'a list \<Rightarrow> 'a list \<Rightarrow> 'a list \<Rightarrow> 'a list" where
  "replace_all pat rep s =
     (if pat = [] then rep @ concat (map (\<lambda>c. c # rep) s)
      else case str_index pat s of
             None \<Rightarrow> s
           | Some i \<Rightarrow> take i s @ rep @ replace_all pat rep (drop (i + length pat) s))"
  by pat_completeness auto
termination
proof (relation "measure (\<lambda>(pat, rep, s). length s)")
  show "wf (measure (\<lambda>(pat, rep, s). length s))" by simp
next
  fix pat rep :: "'a list" and s :: "'a list" and i
  assume "pat \<noteq> []" and "str_index pat s = Some i"
  then have "i + length pat \<le> length s"
    by (simp add: str_index_bound)
  with \<open>pat \<noteq> []\<close> show "((pat, rep, drop (i + length pat) s), (pat, rep, s))
               \<in> measure (\<lambda>(pat, rep, s). length s)"
    by (cases pat) auto
qed

declare replace_all.simps [simp del]

text \<open>
  \<open>s.split(sep)\<close> with a string separator. (An empty separator splits between all code
  units.)
\<close>

function split_str :: "'a list \<Rightarrow> 'a list \<Rightarrow> 'a list list" where
  "split_str sep s =
     (if sep = [] then map (\<lambda>c. [c]) s
      else case str_index sep s of
             None \<Rightarrow> [s]
           | Some i \<Rightarrow> take i s # split_str sep (drop (i + length sep) s))"
  by pat_completeness auto
termination
proof (relation "measure (\<lambda>(sep, s). length s)")
  show "wf (measure (\<lambda>(sep, s). length s))" by simp
next
  fix sep s :: "'a list" and i
  assume "sep \<noteq> []" and "str_index sep s = Some i"
  then have "i + length sep \<le> length s"
    by (simp add: str_index_bound)
  with \<open>sep \<noteq> []\<close> show "((sep, drop (i + length sep) s), (sep, s)) \<in> measure (\<lambda>(sep, s). length s)"
    by (cases sep) auto
qed

declare split_str.simps [simp del]

text \<open>\<open>xs.join(sep)\<close> on an array of strings.\<close>

fun join :: "'a list \<Rightarrow> 'a list list \<Rightarrow> 'a list" where
  "join sep [] = []"
| "join sep [x] = x"
| "join sep (x # y # ys) = x @ sep @ join sep (y # ys)"

text \<open>
  \<open>s.split(/<br\/?>/)\<close>: a match of the regular expression at a position is \<open><br>\<close>
  or \<open><br/>\<close>. \<open>br_index\<close> is the position of the leftmost match and its length.
\<close>

fun br_index :: "jsstring \<Rightarrow> (nat \<times> nat) option" where
  "br_index [] = None"
| "br_index (c # cs) =
     (if prefix (lit ''<br>'') (c # cs) then Some (0, 4)
      else if prefix (lit ''<br/>'') (c # cs) then Some (0, 5)
      else map_option (\<lambda>(i, n). (Suc i, n)) (br_index cs))"

lemma br_index_bound:
  "br_index s = Some (i, n) \<Longrightarrow> 0 < n \<and> i + n \<le> length s"
proof (induction s arbitrary: i)
  case Nil
  then show ?case by simp
next
  case (Cons c cs)
  consider (a) "prefix (lit ''<br>'') (c # cs)"
    | (b) "\<not> prefix (lit ''<br>'') (c # cs)" "prefix (lit ''<br/>'') (c # cs)"
    | (c) "\<not> prefix (lit ''<br>'') (c # cs)" "\<not> prefix (lit ''<br/>'') (c # cs)"
    by blast
  then show ?case
  proof cases
    case a
    from a have "length (lit ''<br>'') \<le> length (c # cs)" by (rule prefix_length_le)
    with a Cons.prems show ?thesis by (simp add: lit_def)
  next
    case b
    from b(2) have "length (lit ''<br/>'') \<le> length (c # cs)" by (rule prefix_length_le)
    with b Cons.prems show ?thesis by (simp add: lit_def)
  next
    case c
    with Cons.prems obtain j where "br_index cs = Some (j, n)" and "i = Suc j"
      by auto
    with Cons.IH show ?thesis by fastforce
  qed
qed

function split_br :: "jsstring \<Rightarrow> jsstring list" where
  "split_br s =
     (case br_index s of
        None \<Rightarrow> [s]
      | Some (i, n) \<Rightarrow> take i s # split_br (drop (i + n) s))"
  by pat_completeness auto
termination
proof (relation "measure length")
  show "wf (measure length)" by simp
next
  fix s :: jsstring and x i n
  assume "br_index s = Some x" and "(i, n) = x"
  then have "br_index s = Some (i, n)"
    by simp
  then have "0 < n \<and> i + n \<le> length s"
    by (rule br_index_bound)
  then show "(drop (i + n) s, s) \<in> measure length"
    by auto
qed

declare split_br.simps [simp del]

section \<open>The widget\<close>

text \<open>
  The fields of the widget object that the functions below read and write. \<open>ckeditor\<close>
  is \<open>None\<close> while \<open>this.ckeditor\<close> is undefined and holds the handle of the editor
  instance otherwise.
\<close>

type_synonym editor = nat

record widget =
  "value" :: jsval
  ckeditor :: "editor option"

subsection \<open>isSet\<close>

text \<open>\<open>value.match(/\S/)\<close>: the array holding the first non-whitespace code unit, or null.\<close>

definition match_nonspace :: "jsstring \<Rightarrow> jsval" where
  "match_nonspace s =
     (case find (\<lambda>c. \<not> is_space c) s of
        None \<Rightarrow> JNull
      | Some c \<Rightarrow> JArr [[c]])"

text \<open>\<open>v.split("&nbsp;").join("").replace(/\s/g, "")\<close>\<close>

definition strip_blank :: "jsstring \<Rightarrow> jsstring" where
  "strip_blank v = filter (\<lambda>c. \<not> is_space c) (join [] (split_str (lit ''&nbsp;'') v))"

text \<open>
  \<open>isSet\<close> returns what the chain of \<open>&&\<close> evaluates to: the first falsy operand, or
  the last operand. Calling \<open>split\<close> on a truthy value that is not a string is a TypeError.
\<close>

definition isSet :: "widget \<Rightarrow> error + jsval" where
  "isSet this =
     (if \<not> truthy (value this) then Inr (value this)
      else case value this of
             JStr v \<Rightarrow>
               (let val = strip_blank v in
                if val = [] then Inr (JStr val)
                else if val = lit ''<p></p>'' then Inr (JBool False)
                else if val = lit ''<p><br></p>'' then Inr (JBool False)
                else Inr (match_nonspace val))
           | _ \<Rightarrow> Inl TypeError)"

text \<open>
  Modelled from the spec: \<open>isEmpty\<close> is the specification's name for \<open>!this.isSet()\<close>.
  The repository defines \<open>isSet\<close> only; the negation turns its result into a boolean.
\<close>

definition isEmpty :: "widget \<Rightarrow> error + jsval" where
  "isEmpty this =
     (case isSet this of
        Inl e \<Rightarrow> Inl e
      | Inr r \<Rightarrow> Inr (JBool (\<not> truthy r)))"

subsection \<open>_textToHtml\<close>

text \<open>
  jQuery is not part of the repository: \<open>$\<close> is a parameter. Applied to a value it throws
  or returns a collection of DOM nodes.
\<close>

type_synonym dom_node = nat
type_synonym jquery = "jsval \<Rightarrow> error + dom_node list"

text \<open>
  The probe \<open>$(text)[0].innerHTML\<close>: it throws when \<open>$\<close> throws, and with a TypeError when
  the collection is empty, as \<open>[0]\<close> is undefined then.
\<close>

definition probe :: "jquery \<Rightarrow> jsval \<Rightarrow> error + unit" where
  "probe jq text =
     (case jq text of
        Inl e \<Rightarrow> Inl e
      | Inr [] \<Rightarrow> Inl TypeError
      | Inr (node # nodes) \<Rightarrow> Inr ())"

definition is_html :: "jquery \<Rightarrow> jsval \<Rightarrow> bool" where
  "is_html jq text = (case probe jq text of Inl e \<Rightarrow> False | Inr u \<Rightarrow> True)"

text \<open>\<open>value.match(/^\s*$/)\<close> as a condition.\<close>

definition is_blank :: "jsstring \<Rightarrow> bool" where
  "is_blank v = list_all is_space v"

definition wrap_paragraphs :: "jsstring \<Rightarrow> jsstring" where
  "wrap_paragraphs v = lit ''<p>'' @ join (lit ''<br/></p><p>'') (split_br v) @ lit ''</p>''"

definition collapse :: "jsstring \<Rightarrow> jsstring" where
  "collapse v =
     replace_first (lit ''</p></p>'') (lit ''</p>'')
       (replace_first (lit ''<p><p '') (lit ''<p '')
         (replace_first (lit ''<p><p>'') (lit ''<p>'')
           (replace_all (lit ''<p></p>'') [] v)))"

text \<open>
  In the handler \<open>value\<close> is \<open>text || ""\<close>; \<open>match\<close> on a value that is not a string is a
  TypeError, which leaves the function.
\<close>

definition textToHtml :: "jquery \<Rightarrow> jsval \<Rightarrow> error + jsval" where
  "textToHtml jq text =
     (let val = (if truthy text then text else JStr []) in
      case probe jq text of
        Inr u \<Rightarrow> Inr val
      | Inl e \<Rightarrow>
          (case val of
             JStr v \<Rightarrow>
               if is_blank v then Inr (JStr (lit ''<p><br/></p>''))
               else Inr (JStr (collapse (wrap_paragraphs v)))
           | _ \<Rightarrow> Inl TypeError))"

text \<open>
  A stand-in for jQuery on a page where no selector matches an element: a falsy argument
  gives the empty collection; a string that starts with \<open><\<close> and ends with \<open>>\<close> is parsed
  as markup and gives a node; any other string is taken as a selector, which is a syntax
  error when it holds \<open><\<close> and matches nothing otherwise.
\<close>

definition jq_stub :: jquery where
  "jq_stub v =
     (if \<not> truthy v then Inr []
      else case v of
             JStr s \<Rightarrow>
               if 3 \<le> length s \<and> take 1 s = lit ''<'' \<and> drop (length s - 1) s = lit ''>''
               then Inr [0]
               else if of_char CHR ''<'' \<in> set s then Inl SyntaxError
               else Inr []
           | _ \<Rightarrow> Inr [0])"

text \<open>\<open>normalize(normalize(x))\<close>: the result of one call is the argument of the next.\<close>

definition normalize_twice :: "jquery \<Rightarrow> jsval \<Rightarrow> error + jsval" where
  "normalize_twice jq text =
     (case textToHtml jq text of
        Inl e \<Rightarrow> Inl e
      | Inr html \<Rightarrow> textToHtml jq html)"

subsection \<open>destroy\<close>

text \<open>
  The calls that \<open>destroy\<close> makes on its collaborators, in order: the editor's own
  \<open>destroy\<close> and the inherited \<open>_super\<close>.
\<close>

datatype call = EditorDestroy editor | SuperDestroy

definition destroy :: "widget \<Rightarrow> call list \<times> widget" where
  "destroy this =
     (case ckeditor this of
        Some ed \<Rightarrow> ([EditorDestroy ed, SuperDestroy], this\<lparr>ckeditor := None\<rparr>)
      | None \<Rightarrow> ([SuperDestroy], this))"

subsection \<open>_getCKEditorToolbarItems\<close>

text \<open>
  What \<open>await getCKEditorConfigPromise\<close> yields: the promise is rejected, and \<open>await\<close>
  throws, or it is fulfilled with the result of the RPC.
\<close>

datatype 'a awaited = Rejected | Fulfilled 'a

text \<open>
  The result of the RPC as far as the code reads it: \<open>Nullish\<close> is null or undefined, on
  which reading a property throws; for any other result, \<open>toolbar\<close> is the value of
  its property \<open>toolbar\<close>, undefined when it has none.
\<close>

datatype ckconfig = Nullish | Config (toolbar: jsval)

text \<open>The class \<open>[\s,]\<close>.\<close>

definition is_sep :: "jschar \<Rightarrow> bool" where
  "is_sep c = (is_space c \<or> c = of_char CHR '','')"

text \<open>
  \<open>s.split(/[\s,]+/)\<close>: the pieces between the maximal runs of separators, the empty
  pieces at both ends included.
\<close>

function split_runs :: "('a \<Rightarrow> bool) \<Rightarrow> 'a list \<Rightarrow> 'a list list" where
  "split_runs sep s =
     (let item = takeWhile (\<lambda>c. \<not> sep c) s; rest = dropWhile (\<lambda>c. \<not> sep c) s in
      if rest = [] then [item] else item # split_runs sep (dropWhile sep rest))"
  by pat_completeness auto
termination
proof (relation "measure (\<lambda>(sep, s). length s)")
  show "wf (measure (\<lambda>(sep, s). length s))" by simp
next
  fix sep :: "'a \<Rightarrow> bool" and s item rest :: "'a list"
  assume rest: "rest = dropWhile (\<lambda>c. \<not> sep c) s" and nonempty: "rest \<noteq> []"
  from nonempty obtain c cs where cs: "rest = c # cs"
    by (cases rest) auto
  from nonempty have "dropWhile (\<lambda>c. \<not> sep c) s \<noteq> []"
    unfolding rest .
  then have "\<not> \<not> sep (hd (dropWhile (\<lambda>c. \<not> sep c) s))"
    by (rule hd_dropWhile)
  with cs have "sep c"
    unfolding rest [symmetric] by simp
  with cs have "length (dropWhile sep rest) \<le> length cs"
    by (simp add: length_dropWhile_le)
  also from cs have "\<dots> < length rest"
    by simp
  also from rest have "\<dots> \<le> length s"
    by (simp add: length_dropWhile_le)
  finally show "((sep, dropWhile sep rest), (sep, s)) \<in> measure (\<lambda>(sep, s). length s)"
    by simp
qed

declare split_runs.simps [simp del]

definition default_toolbar :: "jsstring list" where
  "default_toolbar = map lit
     [''undo'', ''redo'', ''findAndReplace'', ''pageBreak'', ''restrictedEditingException'',
      ''|'', ''heading'', ''|'', ''style'', ''|'', ''textPartLanguage'', ''|'',
      ''fontFamily'', ''fontSize'', ''fontColor'', ''fontBackgroundColor'', ''highlight'',
      ''|'', ''bold'', ''italic'', ''underline'', ''strikethrough'', ''superscript'',
      ''subscript'', ''removeFormat'', ''|'', ''alignment'', ''indent'', ''outdent'', ''|'',
      ''bulletedList'', ''numberedList'', ''todoList'', ''|'', ''link'',
      ''specialCharacters'', ''blockQuote'', ''insertTable'', ''imageUpload'',
      ''horizontalLine'', ''|'', ''code'', ''codeBlock'', ''htmlEmbed'', ''mediaEmbed'']"

text \<open>The three messages that the handler passes to \<open>console.warn\<close>.\<close>

definition toolbar_warnings :: "string list" where
  "toolbar_warnings =
     [''Unable to use CKEditor toolbar configuration: '',
      ''Please check the value for ir.config_parameter 'web_widget_ckeditor.toolbar' is correct'',
      ''Using default toolbar configuration'']"

text \<open>
  The \<open>try\<close> block: it throws, returns the items, or falls through (\<open>None\<close>). Calling
  \<open>split\<close> on a truthy value that is not a string is a TypeError.
\<close>

definition toolbar_try :: "ckconfig awaited \<Rightarrow> error + jsstring list option" where
  "toolbar_try promise =
     (case promise of
        Rejected \<Rightarrow> Inl RpcError
      | Fulfilled Nullish \<Rightarrow> Inl TypeError
      | Fulfilled (Config t) \<Rightarrow>
          if truthy t then
            (case t of
               JStr s \<Rightarrow> Inr (Some (filter (\<lambda>item. item \<noteq> []) (split_runs is_sep s)))
             | _ \<Rightarrow> Inl TypeError)
          else Inr None)"

text \<open>The result is the console output together with the list of items.\<close>

definition getCKEditorToolbarItems :: "ckconfig awaited \<Rightarrow> error + string list \<times> jsstring list" where
  "getCKEditorToolbarItems promise =
     (case toolbar_try promise of
        Inr (Some items) \<Rightarrow> Inr ([], items)
      | Inr None \<Rightarrow> Inr ([], default_toolbar)
      | Inl e \<Rightarrow> Inr (toolbar_warnings, default_toolbar))"

section \<open>Occurrences and markup, for the statements below\<close>

text \<open>
  The collapsing of the specification, stated on occurrences: \<open>leftmost pat s pre post\<close>
  says that \<open>pat\<close> occurs in \<open>s\<close> between \<open>pre\<close> and \<open>post\<close> and nowhere further left.
\<close>

definition leftmost :: "'a list \<Rightarrow> 'a list \<Rightarrow> 'a list \<Rightarrow> 'a list \<Rightarrow> bool" where
  "leftmost pat s pre post \<longleftrightarrow>
     s = pre @ pat @ post \<and>
     (\<forall>pre' post'. s = pre' @ pat @ post' \<longrightarrow> length pre \<le> length pre')"

text \<open>\<open>t\<close> is \<open>s\<close> with its leftmost occurrence of \<open>pat\<close>, if it has one, turned into \<open>rep\<close>.\<close>

definition merged_first :: "'a list \<Rightarrow> 'a list \<Rightarrow> 'a list \<Rightarrow> 'a list \<Rightarrow> bool" where
  "merged_first pat rep s t \<longleftrightarrow>
     (if sublist pat s then \<exists>pre post. leftmost pat s pre post \<and> t = pre @ rep @ post
      else t = s)"

text \<open>
  \<open>t\<close> is \<open>s\<close> after one pass from left to right that removes the leftmost occurrence of
  \<open>pat\<close> and goes on behind it.
\<close>

inductive removed_all :: "'a list \<Rightarrow> 'a list \<Rightarrow> 'a list \<Rightarrow> bool" for pat where
  none_left: "\<not> sublist pat s \<Longrightarrow> removed_all pat s s"
| remove: "leftmost pat s pre post \<Longrightarrow> removed_all pat post t \<Longrightarrow> removed_all pat s (pre @ t)"

text \<open>
  The code units of the tags and of the entity that \<open>_textToHtml\<close> and \<open>isSet\<close> search
  for or insert: those of \<open><p></p>\<close>, \<open><br/>\<close> and \<open>&nbsp;\<close>.
\<close>

definition markup_unit :: "jschar \<Rightarrow> bool" where
  "markup_unit c = (c \<in> set (lit ''</>&;bnprs''))"

section \<open>Properties of _textToHtml on single inputs\<close>

lemma textToHtml_fallback:
  "\<not> is_html jq (JStr v) \<Longrightarrow>
   textToHtml jq (JStr v) =
     Inr (JStr (if is_blank v then lit ''<p><br/></p>'' else collapse (wrap_paragraphs v)))"
  by (cases v) (auto simp: textToHtml_def is_html_def is_blank_def split: sum.splits)

lemma stub_rejects_hello_world: "\<not> is_html jq_stub (JStr (lit ''Hello<br>World''))"
  by code_simp

lemma hello_world_not_blank: "\<not> is_blank (lit ''Hello<br>World'')"
  by code_simp

lemma hello_world_collapse:
  "collapse (wrap_paragraphs (lit ''Hello<br>World'')) = lit ''<p>Hello<br/></p><p>World</p>''"
  by code_simp

lemma hello_world_differs:
  "lit ''<p>Hello<br/></p><p>World</p>'' \<noteq> lit ''<p>Hello</p><p>World</p>''"
  by code_simp

text \<open>
  C1, as stated, fails: on the fallback path \<open>Hello<br>World\<close> does not become
  \<open><p>Hello</p><p>World</p>\<close>, since the segments are joined with \<open><br/></p><p>\<close> and the
  line break stays in front of the closing tag of the first paragraph.
\<close>

theorem textToHtml_hello_world_counterexample:
  "\<not> is_html jq_stub (JStr (lit ''Hello<br>World'')) \<and>
   textToHtml jq_stub (JStr (lit ''Hello<br>World''))
     \<noteq> Inr (JStr (lit ''<p>Hello</p><p>World</p>''))"
  using stub_rejects_hello_world hello_world_not_blank hello_world_collapse hello_world_differs
  by (simp add: textToHtml_fallback)

text \<open>
  C1, amended: when the probe fails on \<open>Hello<br>World\<close>, \<open>_textToHtml\<close> returns
  \<open><p>Hello<br/></p><p>World</p>\<close>: one paragraph for each segment, and each paragraph
  but the last ends with the line break \<open><br/>\<close>.
\<close>

theorem textToHtml_hello_world:
  assumes "\<not> is_html jq (JStr (lit ''Hello<br>World''))"
  shows "textToHtml jq (JStr (lit ''Hello<br>World''))
           = Inr (JStr (lit ''<p>Hello<br/></p><p>World</p>''))"
  using assms hello_world_not_blank hello_world_collapse
  by (simp add: textToHtml_fallback)

theorem textToHtml_hello_world_witness:
  "textToHtml jq_stub (JStr (lit ''Hello<br>World''))
     = Inr (JStr (lit ''<p>Hello<br/></p><p>World</p>''))"
  using textToHtml_hello_world [of jq_stub] stub_rejects_hello_world
  by simp

section \<open>Blank and falsy inputs\<close>

lemma stub_rejects_blank: "\<not> is_html jq_stub (JStr (lit ''   ''))"
  by code_simp

lemma three_spaces_blank: "is_blank (lit ''   '')"
  by code_simp

text \<open>
  C7: on the fallback path, a string that is empty or holds only whitespace becomes the
  single empty paragraph \<open><p><br/></p>\<close>. (For such a string jQuery finds no node, so
  the probe throws and the fallback path is the one taken.)
\<close>

theorem textToHtml_blank:
  assumes "is_blank v" and "\<not> is_html jq (JStr v)"
  shows "textToHtml jq (JStr v) = Inr (JStr (lit ''<p><br/></p>''))"
  using assms by (simp add: textToHtml_fallback)

theorem textToHtml_blank_witness:
  "textToHtml jq_stub (JStr []) = Inr (JStr (lit ''<p><br/></p>'')) \<and>
   textToHtml jq_stub (JStr (lit ''   '')) = Inr (JStr (lit ''<p><br/></p>''))"
proof -
  have empty_blank: "is_blank []"
    by (simp add: is_blank_def)
  have empty_rejected: "\<not> is_html jq_stub (JStr [])"
    by (simp add: is_html_def probe_def jq_stub_def)
  show ?thesis
    using textToHtml_blank [OF empty_blank empty_rejected]
      textToHtml_blank [OF three_spaces_blank stub_rejects_blank]
    by simp
qed

lemma falsy_cases:
  assumes "\<not> truthy text"
  obtains "text = JUndefined" | "text = JNull" | "text = JBool False" | "text = JNum 0"
    | "text = JNaN" | "text = JStr []"
  using assms by (cases "text") auto

text \<open>
  C10: a falsy \<open>text\<close> (undefined, null, false, 0, NaN or the empty string) never makes
  \<open>_textToHtml\<close> throw: \<open>value\<close> is the empty string, and the result is \<open><p><br/></p>\<close>
  when the probe throws, which it does with jQuery, whose collection is empty for every
  falsy argument. (Were the probe to succeed, the result would be the empty string.)
\<close>

theorem textToHtml_falsy:
  assumes "\<not> truthy text"
  shows "textToHtml jq text
           = Inr (JStr (if is_html jq text then [] else lit ''<p><br/></p>''))"
  using assms
  by (cases rule: falsy_cases)
     (auto simp: textToHtml_def is_html_def is_blank_def split: sum.splits)

theorem textToHtml_falsy_witness:
  "\<not> truthy JNull \<and> textToHtml jq_stub JNull = Inr (JStr (lit ''<p><br/></p>'')) \<and>
   \<not> truthy JUndefined \<and> textToHtml jq_stub JUndefined = Inr (JStr (lit ''<p><br/></p>''))"
proof -
  have null_rejected: "\<not> is_html jq_stub JNull"
    and undefined_rejected: "\<not> is_html jq_stub JUndefined"
    by (simp_all add: is_html_def probe_def jq_stub_def)
  show ?thesis
    using textToHtml_falsy [of JNull jq_stub] textToHtml_falsy [of JUndefined jq_stub]
      null_rejected undefined_rejected
    by simp
qed

section \<open>Inputs that parse as HTML\<close>

lemma stub_accepts_paragraph: "is_html jq_stub (JStr (lit ''<p>Hello</p>''))"
  by code_simp

text \<open>
  C9: a string on which the probe succeeds is returned unchanged, so normalising it twice
  equals normalising it once.
\<close>

theorem textToHtml_html_unchanged:
  assumes "is_html jq (JStr x)"
  shows "textToHtml jq (JStr x) = Inr (JStr x) \<and>
         normalize_twice jq (JStr x) = textToHtml jq (JStr x)"
proof -
  from assms have once: "textToHtml jq (JStr x) = Inr (JStr x)"
    by (cases x) (auto simp: textToHtml_def is_html_def split: sum.splits)
  then show ?thesis
    by (simp add: normalize_twice_def)
qed

theorem textToHtml_html_unchanged_witness:
  "textToHtml jq_stub (JStr (lit ''<p>Hello</p>'')) = Inr (JStr (lit ''<p>Hello</p>'')) \<and>
   normalize_twice jq_stub (JStr (lit ''<p>Hello</p>''))
     = textToHtml jq_stub (JStr (lit ''<p>Hello</p>''))"
  using textToHtml_html_unchanged [OF stub_accepts_paragraph]
  by simp

section \<open>isSet and its negation\<close>

lemma isEmpty_string:
  "isEmpty (this\<lparr>value := JStr v\<rparr>) =
     Inr (JBool (strip_blank v = [] \<or> strip_blank v = lit ''<p></p>''
                 \<or> strip_blank v = lit ''<p><br></p>''
                 \<or> list_all is_space (strip_blank v)))"
proof (cases "v = []")
  case True
  have "strip_blank [] = []"
    by (simp add: strip_blank_def lit_def split_str.simps)
  with True show ?thesis
    by (simp add: isEmpty_def isSet_def)
next
  case False
  have no_space: "\<not> is_space c" if "c \<in> set (strip_blank v)" for c
    using that by (simp add: strip_blank_def)
  show ?thesis
  proof (cases "strip_blank v")
    case Nil
    with False show ?thesis
      by (simp add: isEmpty_def isSet_def)
  next
    case (Cons c cs)
    with no_space [of c] have c: "\<not> is_space c"
      by simp
    with Cons have "match_nonspace (strip_blank v) = JArr [[c]]"
      by (simp add: match_nonspace_def)
    with False Cons c show ?thesis
      by (simp add: isEmpty_def isSet_def Let_def)
  qed
qed

lemma isEmpty_falsy:
  "\<not> truthy v \<Longrightarrow> isEmpty (this\<lparr>value := v\<rparr>) = Inr (JBool True)"
  by (simp add: isEmpty_def isSet_def)

text \<open>
  C4: on every value an HTML field can hold, a string or a falsy value, the negation of
  \<open>isSet\<close> is a boolean and nothing is thrown, although \<open>isSet\<close> itself returns the
  empty string, \<open>false\<close> or a match array.
\<close>

theorem isEmpty_boolean:
  assumes "(\<exists>v. value this = JStr v) \<or> \<not> truthy (value this)"
  shows "\<exists>b. isEmpty this = Inr (JBool b)"
  using assms
proof
  assume "\<exists>v. value this = JStr v"
  then obtain v where "value this = JStr v" ..
  then have "this\<lparr>value := JStr v\<rparr> = this"
    by simp
  with isEmpty_string [where this = this and v = v] show ?thesis
    by auto
next
  assume falsy: "\<not> truthy (value this)"
  have "this\<lparr>value := value this\<rparr> = this"
    by simp
  with isEmpty_falsy [OF falsy, where this = this] show ?thesis
    by auto
qed

lemma strip_paragraph_hi: "strip_blank (lit ''<p>hi</p>'') = lit ''<p>hi</p>''"
  by code_simp

theorem isEmpty_boolean_witness:
  "\<exists>b. isEmpty \<lparr>value = JStr (lit ''<p>hi</p>''), ckeditor = None\<rparr> = Inr (JBool b)"
  using isEmpty_boolean [of "\<lparr>value = JStr (lit ''<p>hi</p>''), ckeditor = None\<rparr>"]
  by simp

section \<open>Teardown\<close>

text \<open>
  C5: after \<open>destroy\<close> the reference \<open>this.ckeditor\<close> is undefined; a second \<open>destroy\<close>
  leaves the widget as it is and calls only \<open>_super\<close>, so over both calls the editor's
  \<open>destroy\<close> runs once if the widget held an editor and never otherwise.
\<close>

theorem destroy_idempotent:
  "ckeditor (snd (destroy this)) = None
   \<and> snd (destroy (snd (destroy this))) = snd (destroy this)
   \<and> fst (destroy (snd (destroy this))) = [SuperDestroy]
   \<and> count_list (fst (destroy this) @ fst (destroy (snd (destroy this)))) (EditorDestroy ed)
       = (if ckeditor this = Some ed then 1 else 0)"
  by (cases "ckeditor this") (simp_all add: destroy_def)

section \<open>The toolbar items\<close>

lemma filter_dropWhile_same:
  "filter (\<lambda>c. \<not> P c) (dropWhile P xs) = filter (\<lambda>c. \<not> P c) xs"
  by (induction xs) auto

lemma filter_takeWhile_same: "filter P (takeWhile P xs) = takeWhile P xs"
  by (induction xs) auto

lemma concat_drop_empty: "concat (filter (\<lambda>x. x \<noteq> []) xss) = concat xss"
  by (induction xss) auto

lemma split_runs_last:
  "dropWhile (\<lambda>c. \<not> sep c) s = [] \<Longrightarrow>
   split_runs sep s = [takeWhile (\<lambda>c. \<not> sep c) s]"
  by (subst split_runs.simps) (simp only: Let_def simp_thms if_True)

lemma split_runs_more:
  "dropWhile (\<lambda>c. \<not> sep c) s \<noteq> [] \<Longrightarrow>
   split_runs sep s = takeWhile (\<lambda>c. \<not> sep c) s
      # split_runs sep (dropWhile sep (dropWhile (\<lambda>c. \<not> sep c) s))"
  by (subst split_runs.simps) (simp only: Let_def simp_thms if_False)

lemma concat_split_runs: "concat (split_runs sep s) = filter (\<lambda>c. \<not> sep c) s"
proof (induction sep s rule: split_runs.induct)
  case (1 sep s)
  define item where "item = takeWhile (\<lambda>c. \<not> sep c) s"
  define rest where "rest = dropWhile (\<lambda>c. \<not> sep c) s"
  have "s = item @ rest"
    by (simp add: item_def rest_def)
  moreover have "filter (\<lambda>c. \<not> sep c) item = item"
    unfolding item_def by (rule filter_takeWhile_same)
  ultimately have s: "filter (\<lambda>c. \<not> sep c) s = item @ filter (\<lambda>c. \<not> sep c) rest"
    by (metis filter_append)
  show ?case
  proof (cases "rest = []")
    case True
    then have "split_runs sep s = [item]"
      unfolding item_def rest_def by (rule split_runs_last)
    with True s show ?thesis
      by simp
  next
    case False
    then have "split_runs sep s = item # split_runs sep (dropWhile sep rest)"
      unfolding item_def rest_def by (rule split_runs_more)
    moreover from item_def rest_def False
    have "concat (split_runs sep (dropWhile sep rest))
        = filter (\<lambda>c. \<not> sep c) (dropWhile sep rest)"
      by (rule "1.IH")
    ultimately show ?thesis
      using s by (simp add: filter_dropWhile_same)
  qed
qed

lemma split_runs_items:
  "item \<in> set (split_runs sep s) \<Longrightarrow> c \<in> set item \<Longrightarrow> \<not> sep c"
proof (induction sep s rule: split_runs.induct)
  case (1 sep s)
  define first where "first = takeWhile (\<lambda>c. \<not> sep c) s"
  define rest where "rest = dropWhile (\<lambda>c. \<not> sep c) s"
  have first: "\<not> sep x" if "x \<in> set first" for x
    using that unfolding first_def by (auto dest: set_takeWhileD)
  show ?case
  proof (cases "rest = []")
    case True
    then have "split_runs sep s = [first]"
      unfolding first_def rest_def by (rule split_runs_last)
    with "1.prems" first show ?thesis
      by simp
  next
    case False
    then have "split_runs sep s = first # split_runs sep (dropWhile sep rest)"
      unfolding first_def rest_def by (rule split_runs_more)
    with "1.prems" consider "item = first"
      | "item \<in> set (split_runs sep (dropWhile sep rest))"
      by auto
    then show ?thesis
    proof cases
      case 1
      with "1.prems" first show ?thesis by simp
    next
      case 2
      from first_def rest_def False 2 "1.prems"(2) show ?thesis
        by (rule "1.IH")
    qed
  qed
qed

lemma stub_toolbar:
  "filter (\<lambda>item. item \<noteq> []) (split_runs is_sep (lit ''bold, italic ,,link ''))
     = [lit ''bold'', lit ''italic'', lit ''link'']"
  by code_simp

text \<open>
  C6: a rejected promise and a result without a toolbar both give the default list; a
  toolbar string gives its pieces between runs of whitespace and commas, none of them
  empty; and in no case does the call throw.
\<close>

theorem getCKEditorToolbarItems_default:
  "getCKEditorToolbarItems Rejected = Inr (toolbar_warnings, default_toolbar)
   \<and> getCKEditorToolbarItems (Fulfilled Nullish) = Inr (toolbar_warnings, default_toolbar)
   \<and> (\<not> truthy t \<longrightarrow>
        getCKEditorToolbarItems (Fulfilled (Config t)) = Inr ([], default_toolbar))
   \<and> (s \<noteq> [] \<longrightarrow>
        (\<exists>items. getCKEditorToolbarItems (Fulfilled (Config (JStr s))) = Inr ([], items)
           \<and> items = filter (\<lambda>item. item \<noteq> []) (split_runs is_sep s)
           \<and> [] \<notin> set items
           \<and> (\<forall>item \<in> set items. \<forall>c \<in> set item. \<not> is_sep c)
           \<and> concat items = filter (\<lambda>c. \<not> is_sep c) s))
   \<and> (\<exists>log items. getCKEditorToolbarItems promise = Inr (log, items))"
proof (intro conjI impI)
  show "getCKEditorToolbarItems Rejected = Inr (toolbar_warnings, default_toolbar)"
    by (simp add: getCKEditorToolbarItems_def toolbar_try_def)
  show "getCKEditorToolbarItems (Fulfilled Nullish) = Inr (toolbar_warnings, default_toolbar)"
    by (simp add: getCKEditorToolbarItems_def toolbar_try_def)
  show "getCKEditorToolbarItems (Fulfilled (Config t)) = Inr ([], default_toolbar)"
    if "\<not> truthy t"
    using that by (simp add: getCKEditorToolbarItems_def toolbar_try_def)
  show "\<exists>items. getCKEditorToolbarItems (Fulfilled (Config (JStr s))) = Inr ([], items)
           \<and> items = filter (\<lambda>item. item \<noteq> []) (split_runs is_sep s)
           \<and> [] \<notin> set items
           \<and> (\<forall>item \<in> set items. \<forall>c \<in> set item. \<not> is_sep c)
           \<and> concat items = filter (\<lambda>c. \<not> is_sep c) s"
    if "s \<noteq> []"
  proof -
    let ?items = "filter (\<lambda>item. item \<noteq> []) (split_runs is_sep s)"
    from that have "getCKEditorToolbarItems (Fulfilled (Config (JStr s))) = Inr ([], ?items)"
      by (simp add: getCKEditorToolbarItems_def toolbar_try_def)
    moreover have "[] \<notin> set ?items"
      by simp
    moreover have "\<forall>item \<in> set ?items. \<forall>c \<in> set item. \<not> is_sep c"
      by (auto dest: split_runs_items)
    moreover have "concat ?items = concat (split_runs is_sep s)"
      by (rule concat_drop_empty)
    then have "concat ?items = filter (\<lambda>c. \<not> is_sep c) s"
      by (simp add: concat_split_runs)
    ultimately show ?thesis
      by blast
  qed
  show "\<exists>log items. getCKEditorToolbarItems promise = Inr (log, items)"
    by (simp add: getCKEditorToolbarItems_def split: sum.split option.split)
qed

theorem getCKEditorToolbarItems_default_witness:
  "getCKEditorToolbarItems (Fulfilled (Config JUndefined)) = Inr ([], default_toolbar)
   \<and> (\<exists>items. getCKEditorToolbarItems (Fulfilled (Config (JStr (lit ''bold, italic ,,link ''))))
                 = Inr ([], items)
        \<and> items = [lit ''bold'', lit ''italic'', lit ''link''])"
proof -
  have nonempty: "lit ''bold, italic ,,link '' \<noteq> []"
    by (simp add: lit_def)
  show ?thesis
    using getCKEditorToolbarItems_default
            [where t = JUndefined and s = "lit ''bold, italic ,,link ''"]
          nonempty stub_toolbar
    by auto
qed

section \<open>What indexOf finds\<close>

lemma str_index_Some:
  "str_index pat s = Some i \<Longrightarrow> s = take i s @ pat @ drop (i + length pat) s"
proof (induction s arbitrary: i)
  case Nil
  then show ?case by (simp split: if_splits)
next
  case (Cons c cs)
  show ?case
  proof (cases "prefix pat (c # cs)")
    case True
    then obtain post where "c # cs = pat @ post"
      by (auto simp: prefix_def)
    moreover from True Cons.prems have "i = 0"
      by simp
    ultimately show ?thesis
      by simp
  next
    case False
    with Cons.prems obtain j where j: "str_index pat cs = Some j" and i: "i = Suc j"
      by auto
    from j have "cs = take j cs @ pat @ drop (j + length pat) cs"
      by (rule Cons.IH)
    with i show ?thesis
      by simp
  qed
qed

lemma str_index_least:
  "str_index pat s = Some i \<Longrightarrow> s = pre @ pat @ post \<Longrightarrow> i \<le> length pre"
proof (induction s arbitrary: i pre)
  case Nil
  then show ?case by (simp split: if_splits)
next
  case (Cons c cs)
  show ?case
  proof (cases "prefix pat (c # cs)")
    case True
    with Cons.prems(1) have "i = 0"
      by simp
    then show ?thesis
      by simp
  next
    case False
    with Cons.prems(1) obtain j where j: "str_index pat cs = Some j" and i: "i = Suc j"
      by auto
    from False Cons.prems(2) have "pre \<noteq> []"
      by (auto simp: prefix_def)
    with Cons.prems(2) obtain pre' where pre: "pre = c # pre'" and "cs = pre' @ pat @ post"
      by (cases pre) auto
    with j have "j \<le> length pre'"
      by (intro Cons.IH)
    with i pre show ?thesis
      by simp
  qed
qed

lemma str_index_None: "str_index pat s = None \<longleftrightarrow> \<not> sublist pat s"
proof (induction s)
  case Nil
  then show ?case by simp
next
  case (Cons c cs)
  then show ?case
    by (simp add: sublist_Cons_right)
qed

lemma str_index_leftmost:
  assumes "str_index pat s = Some i"
  shows "leftmost pat s (take i s) (drop (i + length pat) s)"
  unfolding leftmost_def
proof (intro conjI allI impI)
  from assms show "s = take i s @ pat @ drop (i + length pat) s"
    by (rule str_index_Some)
next
  fix pre' post'
  assume "s = pre' @ pat @ post'"
  with assms have "i \<le> length pre'"
    by (rule str_index_least)
  then show "length (take i s) \<le> length pre'"
    by simp
qed

lemma join_empty: "join [] xs = concat xs"
  by (induction "[] :: 'a list" xs rule: join.induct) simp_all

section \<open>The remainder that isSet inspects\<close>

lemma split_str_removed:
  assumes "sep \<noteq> []"
  shows "removed_all sep s (concat (split_str sep s))"
proof (induction "length s" arbitrary: s rule: less_induct)
  case less
  show ?case
  proof (cases "str_index sep s")
    case None
    with assms have "split_str sep s = [s]"
      by (subst split_str.simps) simp
    moreover from None have "\<not> sublist sep s"
      using str_index_None [of sep s] by simp
    ultimately show ?thesis
      by (simp add: removed_all.none_left)
  next
    case (Some i)
    let ?rest = "drop (i + length sep) s"
    from assms Some have "split_str sep s = take i s # split_str sep ?rest"
      by (subst split_str.simps) simp
    moreover from Some have "i + length sep \<le> length s"
      by (rule str_index_bound)
    with assms have "length ?rest < length s"
      by (cases sep) auto
    then have "removed_all sep ?rest (concat (split_str sep ?rest))"
      by (rule less.hyps)
    ultimately show ?thesis
      using str_index_leftmost [OF Some] by (simp add: removed_all.remove)
  qed
qed

lemma leftmost_unique:
  assumes "leftmost pat s pre post" and "leftmost pat s pre' post'"
  shows "pre = pre' \<and> post = post'"
proof -
  from assms have s: "s = pre @ pat @ post" and s': "s = pre' @ pat @ post'"
    by (simp_all add: leftmost_def)
  from assms(1) s' have "length pre \<le> length pre'"
    unfolding leftmost_def by blast
  moreover from assms(2) s have "length pre' \<le> length pre"
    unfolding leftmost_def by blast
  ultimately have "length pre = length pre'"
    by simp
  moreover from s s' have "pre @ pat @ post = pre' @ pat @ post'"
    by simp
  ultimately show ?thesis
    by simp
qed

lemma removed_all_unique:
  "removed_all pat s t \<Longrightarrow> removed_all pat s t' \<Longrightarrow> t = t'"
proof (induction arbitrary: t' rule: removed_all.induct)
  case (none_left s)
  from none_left.prems none_left.hyps show ?case
    by cases (auto simp: leftmost_def)
next
  case (remove s pre post t)
  from remove.prems show ?case
  proof cases
    case none_left
    with remove.hyps(1) show ?thesis
      by (auto simp: leftmost_def)
  next
    case (remove pre' post' u)
    with remove.hyps(1) have "pre = pre'" and "post = post'"
      using leftmost_unique by blast+
    with remove remove.IH show ?thesis
      by simp
  qed
qed

lemma strip_blank_removed:
  "\<exists>rest. removed_all (lit ''&nbsp;'') v rest \<and>
          strip_blank v = filter (\<lambda>c. \<not> is_space c) rest"
proof -
  have "lit ''&nbsp;'' \<noteq> []"
    by (simp add: lit_def)
  then have "removed_all (lit ''&nbsp;'') v (concat (split_str (lit ''&nbsp;'') v))"
    by (rule split_str_removed)
  then show ?thesis
    by (auto simp: strip_blank_def join_empty)
qed

lemma strip_examples:
  "strip_blank (lit ''<p></p>'') = lit ''<p></p>''"
  "strip_blank (lit ''<p><br></p>'') = lit ''<p><br></p>''"
  "strip_blank (lit ''&nbsp;'') = []"
  by code_simp+

lemma paragraph_hi_set:
  "lit ''<p>hi</p>'' \<noteq> [] \<and> lit ''<p>hi</p>'' \<noteq> lit ''<p></p>'' \<and>
   lit ''<p>hi</p>'' \<noteq> lit ''<p><br></p>'' \<and> \<not> list_all is_space (lit ''<p>hi</p>'')"
  by code_simp

text \<open>
  C8: on a string, the negation of \<open>isSet\<close> is decided by a remainder of the value: the
  occurrences of \<open>&nbsp;\<close> are removed in one pass from left to right, and of the result
  every whitespace code unit is dropped. The negation is true exactly when this remainder
  is empty, \<open><p></p>\<close> or \<open><p><br></p>\<close>, or has no non-whitespace code unit; with the
  four examples of the specification.
\<close>

theorem isEmpty_characterisation:
  "(\<exists>rest remainder.
       removed_all (lit ''&nbsp;'') v rest
     \<and> remainder = filter (\<lambda>c. \<not> is_space c) rest
     \<and> isEmpty (this\<lparr>value := JStr v\<rparr>) =
         Inr (JBool (remainder = [] \<or> remainder = lit ''<p></p>''
                     \<or> remainder = lit ''<p><br></p>''
                     \<or> list_all is_space remainder)))
   \<and> isEmpty (this\<lparr>value := JStr (lit ''<p></p>'')\<rparr>) = Inr (JBool True)
   \<and> isEmpty (this\<lparr>value := JStr (lit ''<p><br></p>'')\<rparr>) = Inr (JBool True)
   \<and> isEmpty (this\<lparr>value := JStr (lit ''<p>hi</p>'')\<rparr>) = Inr (JBool False)
   \<and> isEmpty (this\<lparr>value := JStr (lit ''&nbsp;'')\<rparr>) = Inr (JBool True)"
proof (intro conjI)
  from strip_blank_removed [of v] obtain rest
    where "removed_all (lit ''&nbsp;'') v rest"
      and "strip_blank v = filter (\<lambda>c. \<not> is_space c) rest"
    by blast
  then show "\<exists>rest remainder.
       removed_all (lit ''&nbsp;'') v rest
     \<and> remainder = filter (\<lambda>c. \<not> is_space c) rest
     \<and> isEmpty (this\<lparr>value := JStr v\<rparr>) =
         Inr (JBool (remainder = [] \<or> remainder = lit ''<p></p>''
                     \<or> remainder = lit ''<p><br></p>''
                     \<or> list_all is_space remainder))"
    using isEmpty_string [where this = this and v = v] by metis
next
  show "isEmpty (this\<lparr>value := JStr (lit ''<p></p>'')\<rparr>) = Inr (JBool True)"
    by (simp add: isEmpty_string strip_examples)
  show "isEmpty (this\<lparr>value := JStr (lit ''<p><br></p>'')\<rparr>) = Inr (JBool True)"
    by (simp add: isEmpty_string strip_examples)
  show "isEmpty (this\<lparr>value := JStr (lit ''<p>hi</p>'')\<rparr>) = Inr (JBool False)"
    using paragraph_hi_set by (simp add: isEmpty_string strip_paragraph_hi)
  show "isEmpty (this\<lparr>value := JStr (lit ''&nbsp;'')\<rparr>) = Inr (JBool True)"
    by (simp add: isEmpty_string strip_examples)
qed

lemma spaced_entity_index: "str_index (lit ''&nbsp;'') (lit ''<p> &nbsp;</p>'') = Some 4"
  by code_simp

lemma spaced_entity_parts:
  "take 4 (lit ''<p> &nbsp;</p>'') = lit ''<p> ''"
  "drop (4 + length (lit ''&nbsp;'')) (lit ''<p> &nbsp;</p>'') = lit ''</p>''"
  "lit ''<p> '' @ lit ''</p>'' = lit ''<p> </p>''"
  "str_index (lit ''&nbsp;'') (lit ''</p>'') = None"
  by code_simp+

lemma spaced_entity_removed:
  "removed_all (lit ''&nbsp;'') (lit ''<p> &nbsp;</p>'') (lit ''<p> </p>'')"
proof -
  have "leftmost (lit ''&nbsp;'') (lit ''<p> &nbsp;</p>'') (lit ''<p> '') (lit ''</p>'')"
    using str_index_leftmost [OF spaced_entity_index] by (simp only: spaced_entity_parts)
  moreover have "\<not> sublist (lit ''&nbsp;'') (lit ''</p>'')"
    using str_index_None [of "lit ''&nbsp;''" "lit ''</p>''"]
    by (simp only: spaced_entity_parts simp_thms)
  then have "removed_all (lit ''&nbsp;'') (lit ''</p>'') (lit ''</p>'')"
    by (rule removed_all.none_left)
  ultimately have "removed_all (lit ''&nbsp;'') (lit ''<p> &nbsp;</p>'')
      (lit ''<p> '' @ lit ''</p>'')"
    by (rule removed_all.remove)
  then show ?thesis
    by (simp only: spaced_entity_parts)
qed

lemma spaced_remainder:
  "filter (\<lambda>c. \<not> is_space c) (lit ''<p> </p>'') = lit ''<p></p>''"
  by code_simp

theorem isEmpty_characterisation_witness:
  "removed_all (lit ''&nbsp;'') (lit ''<p> &nbsp;</p>'') (lit ''<p> </p>'')
   \<and> filter (\<lambda>c. \<not> is_space c) (lit ''<p> </p>'') = lit ''<p></p>''
   \<and> isEmpty \<lparr>value = JStr (lit ''<p> &nbsp;</p>''), ckeditor = None\<rparr> = Inr (JBool True)"
proof -
  let ?w = "\<lparr>value = JNull, ckeditor = None\<rparr>"
  from isEmpty_characterisation [where v = "lit ''<p> &nbsp;</p>''" and this = ?w]
  obtain rest remainder where rest: "removed_all (lit ''&nbsp;'') (lit ''<p> &nbsp;</p>'') rest"
    and remainder: "remainder = filter (\<lambda>c. \<not> is_space c) rest"
    and result: "isEmpty (?w\<lparr>value := JStr (lit ''<p> &nbsp;</p>'')\<rparr>) =
         Inr (JBool (remainder = [] \<or> remainder = lit ''<p></p>''
                     \<or> remainder = lit ''<p><br></p>''
                     \<or> list_all is_space remainder))"
    by blast
  from rest spaced_entity_removed have "rest = lit ''<p> </p>''"
    by (rule removed_all_unique)
  with remainder have "remainder = lit ''<p></p>''"
    by (simp only: spaced_remainder)
  with result have "isEmpty (?w\<lparr>value := JStr (lit ''<p> &nbsp;</p>'')\<rparr>)
      = Inr (JBool True)"
    by simp
  with spaced_entity_removed spaced_remainder show ?thesis
    by simp
qed

section \<open>Collapsing the wrapped string\<close>

subsection \<open>replace and the occurrences of its pattern\<close>

lemma replace_first_merged: "merged_first pat rep s (replace_first pat rep s)"
proof (cases "str_index pat s")
  case None
  then have "\<not> sublist pat s"
    using str_index_None [of pat s] by simp
  with None show ?thesis
    by (simp add: merged_first_def replace_first_def)
next
  case (Some i)
  then have "sublist pat s"
    using str_index_None [of pat s] by simp
  with Some str_index_leftmost [OF Some] show ?thesis
    unfolding merged_first_def replace_first_def by auto
qed

lemma replace_all_removed:
  assumes "pat \<noteq> []"
  shows "removed_all pat s (replace_all pat [] s)"
proof (induction "length s" arbitrary: s rule: less_induct)
  case less
  show ?case
  proof (cases "str_index pat s")
    case None
    with assms have "replace_all pat [] s = s"
      by (subst replace_all.simps) simp
    moreover from None have "\<not> sublist pat s"
      using str_index_None [of pat s] by simp
    ultimately show ?thesis
      by (simp add: removed_all.none_left)
  next
    case (Some i)
    let ?rest = "drop (i + length pat) s"
    from assms Some have "replace_all pat [] s = take i s @ replace_all pat [] ?rest"
      by (subst replace_all.simps) simp
    moreover from Some have "i + length pat \<le> length s"
      by (rule str_index_bound)
    with assms have "length ?rest < length s"
      by (cases pat) auto
    then have "removed_all pat ?rest (replace_all pat [] ?rest)"
      by (rule less.hyps)
    ultimately show ?thesis
      using str_index_leftmost [OF Some] by (simp add: removed_all.remove)
  qed
qed

lemma collapse_steps:
  "\<exists>a b c.
      removed_all (lit ''<p></p>'') w a
    \<and> merged_first (lit ''<p><p>'') (lit ''<p>'') a b
    \<and> merged_first (lit ''<p><p '') (lit ''<p '') b c
    \<and> merged_first (lit ''</p></p>'') (lit ''</p>'') c (collapse w)"
proof -
  have "lit ''<p></p>'' \<noteq> []"
    by (simp add: lit_def)
  then have "removed_all (lit ''<p></p>'') w (replace_all (lit ''<p></p>'') [] w)"
    by (rule replace_all_removed)
  then show ?thesis
    unfolding collapse_def using replace_first_merged by blast
qed

lemma stub_rejects_doubled: "\<not> is_html jq_stub (JStr (lit ''a<p><p>b<p><p>c''))"
  by code_simp

lemma doubled_not_blank: "\<not> is_blank (lit ''a<p><p>b<p><p>c'')"
  by code_simp

lemma doubled_collapse:
  "collapse (wrap_paragraphs (lit ''a<p><p>b<p><p>c''))
     = lit ''<p>a<p>b'' @ lit ''<p><p>'' @ lit ''c</p>''"
  by code_simp

text \<open>
  C3, as stated, fails: in \<open>a<p><p>b<p><p>c\<close> only the first pair of adjacent open tags
  is merged, and the output still holds \<open><p><p>\<close>.
\<close>

theorem textToHtml_collapse_counterexample:
  "\<not> is_html jq_stub (JStr (lit ''a<p><p>b<p><p>c'')) \<and>
   \<not> is_blank (lit ''a<p><p>b<p><p>c'') \<and>
   textToHtml jq_stub (JStr (lit ''a<p><p>b<p><p>c''))
     = Inr (JStr (lit ''<p>a<p>b'' @ lit ''<p><p>'' @ lit ''c</p>''))"
  using stub_rejects_doubled doubled_not_blank doubled_collapse
  by (simp add: textToHtml_fallback)

text \<open>
  C3, amended: on the fallback path, for a string that is not blank, the output results
  from the wrapped string by one pass that removes the occurrences of \<open><p></p>\<close> from
  left to right, followed by merging the leftmost \<open><p><p>\<close> into \<open><p>\<close>, then the
  leftmost \<open><p><p \<close> into \<open><p \<close>, then the leftmost \<open></p></p>\<close> into \<open></p>\<close>. Further
  occurrences stay.
\<close>

theorem textToHtml_collapse:
  assumes "\<not> is_html jq (JStr v)" and "\<not> is_blank v"
  shows "\<exists>a b c out.
            removed_all (lit ''<p></p>'') (wrap_paragraphs v) a
          \<and> merged_first (lit ''<p><p>'') (lit ''<p>'') a b
          \<and> merged_first (lit ''<p><p '') (lit ''<p '') b c
          \<and> merged_first (lit ''</p></p>'') (lit ''</p>'') c out
          \<and> textToHtml jq (JStr v) = Inr (JStr out)"
  using assms collapse_steps [of "wrap_paragraphs v"]
  by (auto simp: textToHtml_fallback)

theorem textToHtml_collapse_witness:
  "\<exists>a b c out.
      removed_all (lit ''<p></p>'') (wrap_paragraphs (lit ''a<p><p>b<p><p>c'')) a
    \<and> merged_first (lit ''<p><p>'') (lit ''<p>'') a b
    \<and> merged_first (lit ''<p><p '') (lit ''<p '') b c
    \<and> merged_first (lit ''</p></p>'') (lit ''</p>'') c out
    \<and> textToHtml jq_stub (JStr (lit ''a<p><p>b<p><p>c'')) = Inr (JStr out)"
  using textToHtml_collapse [OF stub_rejects_doubled doubled_not_blank]
  by simp

section \<open>Normal forms that are not empty\<close>

subsection \<open>Code units that every step keeps\<close>

lemma str_index_set:
  assumes "str_index pat s = Some i"
  shows "set s = set (take i s) \<union> set pat \<union> set (drop (i + length pat) s)"
proof -
  from assms have "s = take i s @ pat @ drop (i + length pat) s"
    by (rule str_index_Some)
  then have "set s = set (take i s @ pat @ drop (i + length pat) s)"
    by (rule arg_cong)
  then show ?thesis
    by (simp add: Un_assoc)
qed

lemma replace_first_keeps:
  assumes "c \<in> set s" and "c \<notin> set pat"
  shows "c \<in> set (replace_first pat rep s)"
proof (cases "str_index pat s")
  case None
  with assms show ?thesis
    by (simp add: replace_first_def)
next
  case (Some i)
  with assms str_index_set [OF Some] show ?thesis
    by (auto simp: replace_first_def)
qed

lemma replace_all_keeps:
  assumes "pat \<noteq> []" and "c \<notin> set pat"
  shows "c \<in> set s \<Longrightarrow> c \<in> set (replace_all pat rep s)"
proof (induction "length s" arbitrary: s rule: less_induct)
  case less
  show ?case
  proof (cases "str_index pat s")
    case None
    with assms have "replace_all pat rep s = s"
      by (subst replace_all.simps) simp
    with less.prems show ?thesis
      by simp
  next
    case (Some i)
    let ?rest = "drop (i + length pat) s"
    from assms Some have unfold:
      "replace_all pat rep s = take i s @ rep @ replace_all pat rep ?rest"
      by (subst replace_all.simps) simp
    from Some have "i + length pat \<le> length s"
      by (rule str_index_bound)
    with assms have shorter: "length ?rest < length s"
      by (cases pat) auto
    from less.prems assms str_index_set [OF Some]
    consider "c \<in> set (take i s)" | "c \<in> set ?rest"
      by auto
    then show ?thesis
    proof cases
      case 1
      with unfold show ?thesis by simp
    next
      case 2
      with shorter have "c \<in> set (replace_all pat rep ?rest)"
        by (rule less.hyps)
      with unfold show ?thesis by simp
    qed
  qed
qed

lemma split_str_keeps:
  assumes "sep \<noteq> []" and "c \<notin> set sep"
  shows "c \<in> set s \<Longrightarrow> c \<in> set (concat (split_str sep s))"
proof (induction "length s" arbitrary: s rule: less_induct)
  case less
  show ?case
  proof (cases "str_index sep s")
    case None
    with assms have "split_str sep s = [s]"
      by (subst split_str.simps) simp
    with less.prems show ?thesis
      by simp
  next
    case (Some i)
    let ?rest = "drop (i + length sep) s"
    from assms Some have unfold: "split_str sep s = take i s # split_str sep ?rest"
      by (subst split_str.simps) simp
    from Some have "i + length sep \<le> length s"
      by (rule str_index_bound)
    with assms have shorter: "length ?rest < length s"
      by (cases sep) auto
    from less.prems assms str_index_set [OF Some]
    consider "c \<in> set (take i s)" | "c \<in> set ?rest"
      by auto
    then show ?thesis
    proof cases
      case 1
      with unfold show ?thesis by simp
    next
      case 2
      with shorter have "c \<in> set (concat (split_str sep ?rest))"
        by (rule less.hyps)
      with unfold show ?thesis by simp
    qed
  qed
qed

lemma join_keeps: "x \<in> set xs \<Longrightarrow> c \<in> set x \<Longrightarrow> c \<in> set (join sep xs)"
  by (induction sep xs rule: join.induct) auto

lemma br_index_Some:
  "br_index s = Some (i, n) \<Longrightarrow>
   \<exists>m. (m = lit ''<br>'' \<or> m = lit ''<br/>'') \<and> length m = n
        \<and> s = take i s @ m @ drop (i + n) s"
proof (induction s arbitrary: i)
  case Nil
  then show ?case by simp
next
  case (Cons c cs)
  consider (short) "prefix (lit ''<br>'') (c # cs)"
    | (long) "\<not> prefix (lit ''<br>'') (c # cs)" "prefix (lit ''<br/>'') (c # cs)"
    | (later) "\<not> prefix (lit ''<br>'') (c # cs)" "\<not> prefix (lit ''<br/>'') (c # cs)"
    by blast
  then show ?case
  proof cases
    case short
    then obtain post where "c # cs = lit ''<br>'' @ post"
      by (auto simp: prefix_def)
    moreover from short Cons.prems have "i = 0" and "n = 4"
      by simp_all
    moreover have "length (lit ''<br>'') = 4"
      by (simp add: lit_def)
    ultimately show ?thesis
      by (intro exI [of _ "lit ''<br>''"]) simp
  next
    case long
    then obtain post where "c # cs = lit ''<br/>'' @ post"
      by (auto simp: prefix_def)
    moreover from long Cons.prems have "i = 0" and "n = 5"
      by simp_all
    moreover have "length (lit ''<br/>'') = 5"
      by (simp add: lit_def)
    ultimately show ?thesis
      by (intro exI [of _ "lit ''<br/>''"]) simp
  next
    case later
    with Cons.prems obtain j where j: "br_index cs = Some (j, n)" and i: "i = Suc j"
      by auto
    from j obtain m where "m = lit ''<br>'' \<or> m = lit ''<br/>''" and "length m = n"
      and "cs = take j cs @ m @ drop (j + n) cs"
      using Cons.IH by blast
    with i show ?thesis
      by (intro exI [of _ m]) simp
  qed
qed

lemma split_br_keeps:
  assumes "c \<notin> set (lit ''<br/>'')"
  shows "c \<in> set s \<Longrightarrow> \<exists>seg \<in> set (split_br s). c \<in> set seg"
proof (induction "length s" arbitrary: s rule: less_induct)
  case less
  show ?case
  proof (cases "br_index s")
    case None
    then have "split_br s = [s]"
      by (subst split_br.simps) simp
    with less.prems show ?thesis
      by simp
  next
    case (Some found)
    obtain i n where found: "found = (i, n)"
      by (cases found)
    let ?rest = "drop (i + n) s"
    from Some found have unfold: "split_br s = take i s # split_br ?rest"
      by (subst split_br.simps) simp
    from Some found have "0 < n \<and> i + n \<le> length s"
      by (intro br_index_bound) simp
    then have shorter: "length ?rest < length s"
      by auto
    from Some found obtain m where m: "m = lit ''<br>'' \<or> m = lit ''<br/>''"
      and s: "s = take i s @ m @ ?rest"
      using br_index_Some [of s i n] by auto
    from s have "set s = set (take i s @ m @ ?rest)"
      by (rule arg_cong)
    moreover from m assms have "c \<notin> set m"
      by (auto simp: lit_def)
    ultimately consider "c \<in> set (take i s)" | "c \<in> set ?rest"
      using less.prems by auto
    then show ?thesis
    proof cases
      case 1
      with unfold show ?thesis by simp
    next
      case 2
      with shorter have "\<exists>seg \<in> set (split_br ?rest). c \<in> set seg"
        by (rule less.hyps)
      with unfold show ?thesis by simp
    qed
  qed
qed

lemma wrap_paragraphs_keeps:
  assumes "c \<in> set v" and "\<not> markup_unit c"
  shows "c \<in> set (wrap_paragraphs v)"
proof -
  from assms(2) have "c \<notin> set (lit ''<br/>'')"
    by (simp add: markup_unit_def lit_def)
  with assms(1) obtain seg where "seg \<in> set (split_br v)" and "c \<in> set seg"
    using split_br_keeps by blast
  then have "c \<in> set (join (lit ''<br/></p><p>'') (split_br v))"
    by (rule join_keeps)
  then show ?thesis
    by (simp add: wrap_paragraphs_def)
qed

lemma collapse_keeps:
  assumes "c \<in> set w" and "\<not> markup_unit c" and "\<not> is_space c"
  shows "c \<in> set (collapse w)"
proof -
  from assms(2) have tags: "c \<notin> set (lit ''<p></p>'')" "c \<notin> set (lit ''<p><p>'')"
    "c \<notin> set (lit ''</p></p>'')"
    by (simp_all add: markup_unit_def lit_def)
  from assms(2,3) have tag_space: "c \<notin> set (lit ''<p><p '')"
    by (auto simp: markup_unit_def lit_def is_space_def)
  have nonempty: "lit ''<p></p>'' \<noteq> []"
    by (simp add: lit_def)
  have removed: "c \<in> set (replace_all (lit ''<p></p>'') [] w)"
    by (rule replace_all_keeps [OF nonempty tags(1) assms(1)])
  have opened: "c \<in> set (replace_first (lit ''<p><p>'') (lit ''<p>'')
      (replace_all (lit ''<p></p>'') [] w))"
    by (rule replace_first_keeps [OF removed tags(2)])
  have spaced: "c \<in> set (replace_first (lit ''<p><p '') (lit ''<p '')
      (replace_first (lit ''<p><p>'') (lit ''<p>'') (replace_all (lit ''<p></p>'') [] w)))"
    by (rule replace_first_keeps [OF opened tag_space])
  show ?thesis
    unfolding collapse_def by (rule replace_first_keeps [OF spaced tags(3)])
qed

lemma strip_blank_keeps:
  assumes "c \<in> set v" and "\<not> markup_unit c" and "\<not> is_space c"
  shows "c \<in> set (strip_blank v)"
proof -
  from assms(2) have "c \<notin> set (lit ''&nbsp;'')"
    by (simp add: markup_unit_def lit_def)
  moreover have "lit ''&nbsp;'' \<noteq> []"
    by (simp add: lit_def)
  ultimately have "c \<in> set (concat (split_str (lit ''&nbsp;'') v))"
    using assms(1) by (intro split_str_keeps)
  with assms(3) show ?thesis
    by (simp add: strip_blank_def join_empty)
qed

lemma stub_rejects_nbsp: "\<not> is_html jq_stub (JStr (lit ''&nbsp;''))"
  by code_simp

lemma nbsp_visible: "list_ex (\<lambda>c. \<not> is_space c) (lit ''&nbsp;'')"
  by code_simp

lemma nbsp_not_blank: "\<not> is_blank (lit ''&nbsp;'')"
  by code_simp

lemma nbsp_collapse: "collapse (wrap_paragraphs (lit ''&nbsp;'')) = lit ''<p>&nbsp;</p>''"
  by code_simp

lemma nbsp_paragraph_stripped: "strip_blank (lit ''<p>&nbsp;</p>'') = lit ''<p></p>''"
  by code_simp

text \<open>
  C2, as stated, fails: \<open>&nbsp;\<close> fails the probe and consists of six non-whitespace
  code units, yet its normal form \<open><p>&nbsp;</p>\<close> is empty for \<open>isSet\<close>, which strips
  the entity before it compares with \<open><p></p>\<close>.
\<close>

theorem isEmpty_textToHtml_counterexample:
  "\<not> is_html jq_stub (JStr (lit ''&nbsp;'')) \<and>
   list_ex (\<lambda>c. \<not> is_space c) (lit ''&nbsp;'') \<and>
   textToHtml jq_stub (JStr (lit ''&nbsp;'')) = Inr (JStr (lit ''<p>&nbsp;</p>'')) \<and>
   isEmpty \<lparr>value = JStr (lit ''<p>&nbsp;</p>''), ckeditor = None\<rparr> = Inr (JBool True)"
proof -
  have "isEmpty (\<lparr>value = JNull, ckeditor = None\<rparr>\<lparr>value := JStr (lit ''<p>&nbsp;</p>'')\<rparr>)
          = Inr (JBool True)"
    by (simp only: isEmpty_string nbsp_paragraph_stripped) simp
  then show ?thesis
    using stub_rejects_nbsp nbsp_visible nbsp_not_blank nbsp_collapse
    by (simp add: textToHtml_fallback)
qed

text \<open>
  C2, amended: when the probe fails on a string that holds a code unit which is neither
  whitespace nor one of the code units of the markup (\<open><\<close>, \<open>/\<close>, \<open>>\<close>, \<open>&\<close>, \<open>;\<close>,
  \<open>b\<close>, \<open>n\<close>, \<open>p\<close>, \<open>r\<close>, \<open>s\<close>), the normal form of the string is not empty: the
  negation of \<open>isSet\<close> on it is false.
\<close>

theorem isEmpty_textToHtml:
  assumes "\<not> is_html jq (JStr v)"
    and "c \<in> set v" and "\<not> is_space c" and "\<not> markup_unit c"
  shows "\<exists>html. textToHtml jq (JStr v) = Inr (JStr html) \<and>
                isEmpty (this\<lparr>value := JStr html\<rparr>) = Inr (JBool False)"
proof -
  let ?html = "collapse (wrap_paragraphs v)"
  from assms(2,3) have "\<not> is_blank v"
    by (auto simp: is_blank_def list_all_iff)
  with assms(1) have html: "textToHtml jq (JStr v) = Inr (JStr ?html)"
    by (simp add: textToHtml_fallback)
  from assms(2,4) have "c \<in> set (wrap_paragraphs v)"
    by (rule wrap_paragraphs_keeps)
  then have "c \<in> set ?html"
    using assms(4,3) by (rule collapse_keeps)
  then have kept: "c \<in> set (strip_blank ?html)"
    using assms(4,3) by (rule strip_blank_keeps)
  from assms(4) have "c \<notin> set (lit ''<p></p>'')" and "c \<notin> set (lit ''<p><br></p>'')"
    by (simp_all add: markup_unit_def lit_def)
  with kept have "strip_blank ?html \<noteq> lit ''<p></p>''"
    and "strip_blank ?html \<noteq> lit ''<p><br></p>''"
    by auto
  moreover from kept have "strip_blank ?html \<noteq> []"
    by auto
  moreover from kept assms(3) have "\<not> list_all is_space (strip_blank ?html)"
    by (auto simp: list_all_iff)
  ultimately have "isEmpty (this\<lparr>value := JStr ?html\<rparr>) = Inr (JBool False)"
    by (simp only: isEmpty_string) simp
  with html show ?thesis
    by blast
qed

lemma hello_world_visible:
  "of_char CHR ''H'' \<in> set (lit ''Hello<br>World'')"
  "\<not> is_space (of_char CHR ''H'')"
  "\<not> markup_unit (of_char CHR ''H'')"
  by code_simp+

theorem isEmpty_textToHtml_witness:
  "\<exists>html. textToHtml jq_stub (JStr (lit ''Hello<br>World'')) = Inr (JStr html) \<and>
          isEmpty \<lparr>value = JStr html, ckeditor = None\<rparr> = Inr (JBool False)"
  using isEmpty_textToHtml [OF stub_rejects_hello_world hello_world_visible,
      where this = "\<lparr>value = JNull, ckeditor = None\<rparr>"]
  by simp

end
